theory Spec2Isabelle
  imports Main
begin

section \<open>Strings and the wake-word patterns of OpenVC.py\<close>

text \<open>
  A Python \<open>str\<close> is a sequence of Unicode code points. A code point is a natural
  number; an ASCII literal of the source is written with \<open>lit\<close>.
\<close>

type_synonym codepoint = nat
type_synonym pystr = "codepoint list"

definition lit :: "string \<Rightarrow> pystr" where
  "lit s = map of_char s"

subsection \<open>What the \<open>re\<close> module does with the two patterns\<close>

text \<open>
  \<open>\W\<close> accepts a code point that is not a word character. For a \<open>str\<close> pattern a
  word character is an alphanumeric code point or the underscore. Below 128 the
  alphanumerics are the digits and the letters; above, the Unicode character database
  decides, and the database is the parameter \<open>W\<close> of everything that follows.
\<close>

definition is_word :: "(codepoint \<Rightarrow> bool) \<Rightarrow> codepoint \<Rightarrow> bool" where
  "is_word W c =
     (if c < 128
      then (48 \<le> c \<and> c \<le> 57) \<or> (65 \<le> c \<and> c \<le> 90) \<or> (97 \<le> c \<and> c \<le> 122) \<or> c = 95
      else W c)"

text \<open>
  With \<open>re.IGNORECASE\<close> a literal ASCII letter accepts its two ASCII cases and, as the
  documentation of \<open>re\<close> lists, four further code points: U+017F (long s) for \<open>s\<close>,
  U+212A (Kelvin sign) for \<open>k\<close>, U+0130 and U+0131 for \<open>i\<close>. Any other literal of
  the two patterns would accept itself only.
\<close>

definition ascii_lower :: "codepoint \<Rightarrow> codepoint" where
  "ascii_lower c = (if 65 \<le> c \<and> c \<le> 90 then c + 32 else c)"

definition ignorecase_accepts :: "codepoint \<Rightarrow> codepoint \<Rightarrow> bool" where
  "ignorecase_accepts l c =
     (ascii_lower c = ascii_lower l
      \<or> (ascii_lower l = 115 \<and> c = 383)
      \<or> (ascii_lower l = 107 \<and> c = 8490)
      \<or> (ascii_lower l = 105 \<and> (c = 304 \<or> c = 305)))"

datatype atom = Literal codepoint | NotWord

datatype node = AtBeginning | AtEnd | One atom | MaxRepeat atom

record regex =
  nodes :: "node list"
  ignorecase :: bool

fun atom_accepts :: "(codepoint \<Rightarrow> bool) \<Rightarrow> bool \<Rightarrow> atom \<Rightarrow> codepoint \<Rightarrow> bool" where
  "atom_accepts W ic (Literal l) c = (if ic then ignorecase_accepts l c else c = l)"
| "atom_accepts W ic NotWord c = (\<not> is_word W c)"

text \<open>
  \<open>match_here W ic ns b s\<close>: the nodes \<open>ns\<close> match a prefix of \<open>s\<close>, where \<open>b\<close> says
  that \<open>s\<close> is the whole subject (nothing consumed yet). \<open>^\<close> holds at the start only;
  \<open>$\<close> holds at the end and before a final newline; \<open>*\<close> backtracks over every
  number of repetitions.
\<close>

function match_here ::
  "(codepoint \<Rightarrow> bool) \<Rightarrow> bool \<Rightarrow> node list \<Rightarrow> bool \<Rightarrow> pystr \<Rightarrow> bool" where
  "match_here W ic [] b s = True"
| "match_here W ic (AtBeginning # ns) b s = (b \<and> match_here W ic ns b s)"
| "match_here W ic (AtEnd # ns) b s = ((s = [] \<or> s = [10]) \<and> match_here W ic ns b s)"
| "match_here W ic (One a # ns) b [] = False"
| "match_here W ic (One a # ns) b (c # cs) =
     (atom_accepts W ic a c \<and> match_here W ic ns False cs)"
| "match_here W ic (MaxRepeat a # ns) b [] = match_here W ic ns b []"
| "match_here W ic (MaxRepeat a # ns) b (c # cs) =
     ((atom_accepts W ic a c \<and> match_here W ic (MaxRepeat a # ns) False cs)
      \<or> match_here W ic ns b (c # cs))"
  by pat_completeness auto
termination
  by (relation "measure (\<lambda>(W, ic, ns, b, s). length ns + length s)") auto

text \<open>\<open>pattern.match(raw)\<close>: a match at the start of \<open>raw\<close>, as a truth value.\<close>

definition re_match :: "(codepoint \<Rightarrow> bool) \<Rightarrow> regex \<Rightarrow> pystr \<Rightarrow> bool" where
  "re_match W p s = match_here W (ignorecase p) (nodes p) True s"

text \<open>
  \<^verbatim>\<open>stop_pattern = re.compile(r'^\W*stop\W*$', re.IGNORECASE)\<close>
  \<^verbatim>\<open>start_pattern = re.compile(r'^\W*start\W*$', re.IGNORECASE)\<close>
\<close>

definition literals :: "string \<Rightarrow> node list" where
  "literals w = map (\<lambda>l. One (Literal l)) (lit w)"

definition stop_pattern :: regex where
  "stop_pattern =
     \<lparr>nodes = [AtBeginning, MaxRepeat NotWord] @ literals ''stop'' @ [MaxRepeat NotWord, AtEnd],
      ignorecase = True\<rparr>"

definition start_pattern :: regex where
  "start_pattern =
     \<lparr>nodes = [AtBeginning, MaxRepeat NotWord] @ literals ''start'' @ [MaxRepeat NotWord, AtEnd],
      ignorecase = True\<rparr>"

section \<open>Exceptions, the outside world and the three service functions\<close>

text \<open>
  An exception is of a class derived from \<open>Exception\<close> (what \<open>except Exception\<close>
  catches) or not (\<open>KeyboardInterrupt\<close>, \<open>SystemExit\<close>). A call of a library
  function returns a value or raises.
\<close>

datatype exn = Exc string | BaseExc string

fun is_Exception :: "exn \<Rightarrow> bool" where
  "is_Exception (Exc n) = True"
| "is_Exception (BaseExc n) = False"

datatype 'a outcome = Returns 'a | Raises exn

datatype log_record =
    Waiting_for_voice
  | STT_capture_error exn
  | USER pystr
  | STT_API_error exn
  | Playing pystr
  | TTS_API int pystr
  | LLM pystr
  | Welcome pystr
  | Proceeding_anonymously
  | Now_running

datatype level = INFO | ERROR

fun levelname :: "log_record \<Rightarrow> level" where
  "levelname (STT_capture_error e) = ERROR"
| "levelname (STT_API_error e) = ERROR"
| "levelname (TTS_API n t) = ERROR"
| "levelname r = INFO"

text \<open>
  The requests posted to the three endpoints, with the fields that vary:
  the audio of a transcription, the \<open>input\<close> of a speech synthesis, and the system
  message, user message and \<open>max_tokens\<close> of a chat completion.
\<close>

datatype request =
    Transcriptions "nat list"
  | Speech pystr
  | Chat_completions pystr pystr int

record world =
  files :: "string set"
  log :: "log_record list"
  requests :: "request list"

definition logging :: "log_record \<Rightarrow> world \<Rightarrow> world" where
  "logging r w = w\<lparr>log := log w @ [r]\<rparr>"

definition post :: "request \<Rightarrow> world \<Rightarrow> world" where
  "post q w = w\<lparr>requests := requests w @ [q]\<rparr>"

record response =
  status_code :: int
  text_body :: pystr

record tts_response = response +
  content :: "nat list"

record chat_response = response +
  message_content :: "pystr outcome"

text \<open>\<open>Response.raise_for_status\<close> of \<open>requests\<close> raises \<open>HTTPError\<close> on 4xx and 5xx.\<close>

definition raise_for_status :: "'a response_scheme \<Rightarrow> unit outcome" where
  "raise_for_status r =
     (if 400 \<le> status_code r \<and> status_code r < 600 then Raises (Exc ''HTTPError'')
      else Returns ())"

text \<open>\<open>str.strip()\<close> removes the white space of \<open>str.isspace\<close> at both ends.\<close>

definition isspace :: "codepoint \<Rightarrow> bool" where
  "isspace c =
     ((9 \<le> c \<and> c \<le> 13) \<or> (28 \<le> c \<and> c \<le> 32) \<or> c = 133 \<or> c = 160 \<or> c = 5760
      \<or> (8192 \<le> c \<and> c \<le> 8202) \<or> c = 8232 \<or> c = 8233 \<or> c = 8239 \<or> c = 8287
      \<or> c = 12288)"

definition strip :: "pystr \<Rightarrow> pystr" where
  "strip s = rev (dropWhile isspace (rev (dropWhile isspace s)))"

subsection \<open>\<open>process_voice_input\<close>\<close>

text \<open>
  What the microphone, the file system and the transcription endpoint do during one
  call: opening \<open>sr.Microphone()\<close> and entering the \<open>with\<close> block,
  \<open>adjust_for_ambient_noise\<close>, \<open>listen\<close>, leaving the \<open>with\<close> block
  (\<open>Microphone.__exit__\<close>, which releases the device), writing \<open>prompt.wav\<close>, the
  upload (opening the file again and \<open>requests.post\<close>), and \<open>os.remove\<close>.
\<close>

record capture_env =
  microphone :: "unit outcome"
  adjust_for_ambient_noise :: "unit outcome"
  listen :: "nat list outcome"
  microphone_exit :: "unit outcome"
  write_prompt :: "unit outcome"
  stt_post :: "response outcome"
  remove_prompt :: "unit outcome"

text \<open>
  Every way out of the \<open>with\<close> block runs \<open>__exit__\<close>: the \<open>return ""\<close> of the
  handler, an exception on its way to the caller, and the end of the block. An exception
  of \<open>__exit__\<close> takes the place of the result or of the exception that was leaving.
\<close>

definition leave_with :: "capture_env \<Rightarrow> 'a outcome \<Rightarrow> 'a outcome" where
  "leave_with env r = (case microphone_exit env of Raises e \<Rightarrow> Raises e | Returns _ \<Rightarrow> r)"

definition process_voice_input :: "capture_env \<Rightarrow> world \<Rightarrow> pystr outcome \<times> world" where
  "process_voice_input env w =
     (case microphone env of
        Raises e \<Rightarrow> (Raises e, w)
      | Returns _ \<Rightarrow>
     (case adjust_for_ambient_noise env of
        Raises e \<Rightarrow> (leave_with env (Raises e), w)
      | Returns _ \<Rightarrow>
     (let w1 = logging Waiting_for_voice w in
      case listen env of
        Raises e \<Rightarrow>
          (if is_Exception e
           then (leave_with env (Returns []), logging (STT_capture_error e) w1)
           else (leave_with env (Raises e), w1))
      | Returns audio \<Rightarrow>
     (case microphone_exit env of
        Raises e \<Rightarrow> (Raises e, w1)
      | Returns _ \<Rightarrow>
     (case write_prompt env of
        Raises e \<Rightarrow> (Raises e, w1)
      | Returns _ \<Rightarrow>
     (let w2 = post (Transcriptions audio) (w1\<lparr>files := insert ''prompt.wav'' (files w1)\<rparr>);
          (r, w3) =
            (case stt_post env of
               Raises e \<Rightarrow>
                 (if is_Exception e then (Returns [], logging (STT_API_error e) w2)
                  else (Raises e, w2))
             | Returns resp \<Rightarrow>
                 (case raise_for_status resp of
                    Raises e \<Rightarrow> (Returns [], logging (STT_API_error e) w2)
                  | Returns _ \<Rightarrow>
                      (Returns (strip (text_body resp)), logging (USER (strip (text_body resp))) w2)))
      in case remove_prompt env of
           Raises e \<Rightarrow> (Raises e, w3)
         | Returns _ \<Rightarrow> (r, w3\<lparr>files := files w3 - {''prompt.wav''}\<rparr>)))))))"

subsection \<open>\<open>text_to_speech\<close>\<close>

record tts_env =
  tts_post :: "tts_response outcome"
  write_bytes :: "unit outcome"
  from_wav :: "unit outcome"
  play :: "unit outcome"
  unlink :: "unit outcome"

definition text_to_speech :: "tts_env \<Rightarrow> pystr \<Rightarrow> world \<Rightarrow> unit outcome \<times> world" where
  "text_to_speech env txt w =
     (let w1 = post (Speech txt) w in
      case tts_post env of
        Raises e \<Rightarrow> (Raises e, w1)
      | Returns r \<Rightarrow>
          if status_code r = 200 then
            (case write_bytes env of
               Raises e \<Rightarrow> (Raises e, w1)
             | Returns _ \<Rightarrow>
            (let w2 = logging (Playing txt) (w1\<lparr>files := insert ''speech.wav'' (files w1)\<rparr>) in
             case from_wav env of
               Raises e \<Rightarrow> (Raises e, w2)
             | Returns _ \<Rightarrow>
            (case play env of
               Raises e \<Rightarrow> (Raises e, w2)
             | Returns _ \<Rightarrow>
            (case unlink env of
               Raises e \<Rightarrow> (Raises e, w2)
             | Returns _ \<Rightarrow> (Returns (), w2\<lparr>files := files w2 - {''speech.wav''}\<rparr>)))))
          else (Returns (), logging (TTS_API (status_code r) (text_body r)) w1))"

subsection \<open>\<open>query_llm\<close>\<close>

definition sys_msg :: pystr where
  "sys_msg = lit (''You are OpenVc, an open-source, cloud-powered voice chat system template. ''
     @ ''You receive spoken prompts via STT (Whisper) and reply via TTS (PlayAI). ''
     @ ''Keep messages short and simple for voice chat.'')"

text \<open>
  \<open>message_content\<close> of the response is what
  \<^verbatim>\<open>r.json()['choices'][0]['message']['content']\<close> evaluates to, or the exception it
  raises on a body of another shape.
\<close>

definition query_llm :: "pystr \<Rightarrow> chat_response outcome \<Rightarrow> pystr \<Rightarrow> int \<Rightarrow> world \<Rightarrow> pystr outcome \<times> world" where
  "query_llm recognized_user_name chat_post prompt max_tokens w =
     (let prompt_sys =
            (if recognized_user_name \<noteq> []
             then sys_msg @ lit '' The user'' @ [39] @ lit ''s name is '' @ recognized_user_name @ lit ''.''
             else sys_msg);
          w1 = post (Chat_completions prompt_sys prompt max_tokens) w
      in case chat_post of
           Raises e \<Rightarrow> (Raises e, w1)
         | Returns r \<Rightarrow>
        (case raise_for_status r of
           Raises e \<Rightarrow> (Raises e, w1)
         | Returns _ \<Rightarrow>
        (case message_content r of
           Raises e \<Rightarrow> (Raises e, w1)
         | Returns c \<Rightarrow> (Returns (strip c), logging (LLM (strip c)) w1))))"

section \<open>The wake-word loop\<close>

text \<open>What the outside world does during one iteration of \<open>while True\<close>.\<close>

record turn_env =
  capture :: capture_env
  chat :: "chat_response outcome"
  speech :: tts_env

definition stopped_msg :: pystr where
  "stopped_msg = lit ''Voice chat stopped. Say '' @ [8216] @ lit ''start'' @ [8217] @ lit '' to resume.''"

definition resumed_msg :: pystr where
  "resumed_msg = lit ''Voice chat resumed.''"

text \<open>
  One iteration: the new value of \<open>listening_enabled\<close>, or the exception that leaves
  the loop (nothing in \<open>__main__\<close> catches one).
\<close>

definition iteration ::
  "(codepoint \<Rightarrow> bool) \<Rightarrow> pystr \<Rightarrow> turn_env \<Rightarrow> bool \<Rightarrow> world \<Rightarrow> bool outcome \<times> world" where
  "iteration W recognized_user_name env listening_enabled w =
     (case process_voice_input (capture env) w of
        (Raises e, w1) \<Rightarrow> (Raises e, w1)
      | (Returns raw, w1) \<Rightarrow>
          if raw = [] then (Returns listening_enabled, w1)
          else if listening_enabled \<and> re_match W stop_pattern raw then
            (case text_to_speech (speech env) stopped_msg w1 of
               (Raises e, w2) \<Rightarrow> (Raises e, w2)
             | (Returns _, w2) \<Rightarrow> (Returns False, w2))
          else if \<not> listening_enabled \<and> re_match W start_pattern raw then
            (case text_to_speech (speech env) resumed_msg w1 of
               (Raises e, w2) \<Rightarrow> (Raises e, w2)
             | (Returns _, w2) \<Rightarrow> (Returns True, w2))
          else if listening_enabled then
            (case query_llm recognized_user_name (chat env) raw 64 w1 of
               (Raises e, w2) \<Rightarrow> (Raises e, w2)
             | (Returns reply, w2) \<Rightarrow>
            (case text_to_speech (speech env) reply w2 of
               (Raises e, w3) \<Rightarrow> (Raises e, w3)
             | (Returns _, w3) \<Rightarrow> (Returns listening_enabled, w3)))
          else (Returns listening_enabled, w1))"

text \<open>
  The loop never ends by itself; \<open>main_loop\<close> runs it through the iterations whose
  outside world is given, and stops before them at the first exception.
\<close>

fun main_loop ::
  "(codepoint \<Rightarrow> bool) \<Rightarrow> pystr \<Rightarrow> turn_env list \<Rightarrow> bool \<Rightarrow> world \<Rightarrow> bool outcome \<times> world" where
  "main_loop W recognized_user_name [] listening_enabled w = (Returns listening_enabled, w)"
| "main_loop W recognized_user_name (env # envs) listening_enabled w =
     (case iteration W recognized_user_name env listening_enabled w of
        (Raises e, w1) \<Rightarrow> (Raises e, w1)
      | (Returns l, w1) \<Rightarrow> main_loop W recognized_user_name envs l w1)"

text \<open>\<open>__main__\<close> from the name typed at the prompt: \<open>listening_enabled = True\<close>.\<close>

definition main ::
  "(codepoint \<Rightarrow> bool) \<Rightarrow> pystr \<Rightarrow> turn_env list \<Rightarrow> world \<Rightarrow> bool outcome \<times> world" where
  "main W typed envs w =
     (let recognized_user_name = strip typed;
          w1 = logging (if recognized_user_name \<noteq> [] then Welcome recognized_user_name
                        else Proceeding_anonymously) w
      in main_loop W recognized_user_name envs True (logging Now_running w1))"

section \<open>The words of the specification\<close>

text \<open>
  A transcript trimmed of the non-word characters around it, and the comparison with a
  word that ignores case, one code point at a time.
\<close>

definition trim_nonword :: "(codepoint \<Rightarrow> bool) \<Rightarrow> pystr \<Rightarrow> pystr" where
  "trim_nonword W t =
     rev (dropWhile (\<lambda>c. \<not> is_word W c) (rev (dropWhile (\<lambda>c. \<not> is_word W c) t)))"

definition caseless_eq :: "string \<Rightarrow> pystr \<Rightarrow> bool" where
  "caseless_eq w t = list_all2 ignorecase_accepts (lit w) t"

definition is_exactly :: "(codepoint \<Rightarrow> bool) \<Rightarrow> string \<Rightarrow> pystr \<Rightarrow> bool" where
  "is_exactly W w t = caseless_eq w (trim_nonword W t)"

text \<open>
  The flag after one transcript as the specification has it: from true to false on the
  word stop, from false to true on the word start, unchanged otherwise.
\<close>

definition flag_step :: "(codepoint \<Rightarrow> bool) \<Rightarrow> bool \<Rightarrow> pystr \<Rightarrow> bool" where
  "flag_step W l t =
     (if l \<and> is_exactly W ''stop'' t then False
      else if \<not> l \<and> is_exactly W ''start'' t then True
      else l)"

text \<open>
  The transcript that the capture of an iteration returns, and the transcripts of the
  iterations of a run up to the first capture that raises.
\<close>

definition transcript_of :: "turn_env \<Rightarrow> pystr outcome" where
  "transcript_of env = fst (process_voice_input (capture env) \<lparr>files = {}, log = [], requests = []\<rparr>)"

fun heard :: "turn_env list \<Rightarrow> pystr list" where
  "heard [] = []"
| "heard (env # envs) =
     (case transcript_of env of Raises e \<Rightarrow> [] | Returns t \<Rightarrow> t # heard envs)"

text \<open>The texts given to the Speaker and the prompts given to the ChatClient.\<close>

fun spoken :: "request list \<Rightarrow> pystr list" where
  "spoken [] = []"
| "spoken (Speech t # qs) = t # spoken qs"
| "spoken (q # qs) = spoken qs"

fun asked :: "request list \<Rightarrow> pystr list" where
  "asked [] = []"
| "asked (Chat_completions s p n # qs) = p # asked qs"
| "asked (q # qs) = asked qs"

text \<open>
  The specification's classification of a transcript, from the two tests of the loop in
  the order the loop makes them.
\<close>

datatype wake_word = Stop | Start | Other

definition classify :: "(codepoint \<Rightarrow> bool) \<Rightarrow> pystr \<Rightarrow> wake_word" where
  "classify W t =
     (if re_match W stop_pattern t then Stop
      else if re_match W start_pattern t then Start
      else Other)"

text \<open>The requests posted between two worlds.\<close>

definition issued :: "world \<Rightarrow> world \<Rightarrow> request list" where
  "issued w w' = drop (length (requests w)) (requests w')"

section \<open>Sample environments\<close>

text \<open>
  A character database with one letter beyond ASCII, U+017F; a world with no file, no
  log line and no request; a microphone and a transcription endpoint that deliver a
  given text; services that answer 200, the chat endpoint with a body that holds the
  reply; a chat response of status 300 (Multiple Choices, with no \<open>Location\<close> header,
  so that nothing is followed) with such a body; and failures of each service.
\<close>

definition long_s :: "codepoint \<Rightarrow> bool" where
  "long_s c = (c = 383)"

definition empty_world :: world where
  "empty_world = \<lparr>files = {}, log = [], requests = []\<rparr>"

definition hears :: "pystr \<Rightarrow> capture_env" where
  "hears t =
     \<lparr>microphone = Returns (), adjust_for_ambient_noise = Returns (), listen = Returns [],
      microphone_exit = Returns (), write_prompt = Returns (), stt_post = Returns \<lparr>status_code = 200, text_body = t\<rparr>,
      remove_prompt = Returns ()\<rparr>"

definition speaker_ok :: tts_env where
  "speaker_ok =
     \<lparr>tts_post = Returns \<lparr>status_code = 200, text_body = [], content = []\<rparr>,
      write_bytes = Returns (), from_wav = Returns (), play = Returns (), unlink = Returns ()\<rparr>"

definition chat_body :: "pystr \<Rightarrow> pystr" where
  "chat_body c =
     lit ''{'' @ [34] @ lit ''choices'' @ [34] @ lit '':[{'' @ [34] @ lit ''message'' @ [34]
       @ lit '':{'' @ [34] @ lit ''content'' @ [34] @ lit '':'' @ [34] @ c @ [34] @ lit ''}}]}''"

definition replies :: "pystr \<Rightarrow> chat_response outcome" where
  "replies t =
     Returns \<lparr>status_code = 200, text_body = chat_body t, message_content = Returns t\<rparr>"

definition turn :: "pystr \<Rightarrow> pystr \<Rightarrow> turn_env" where
  "turn t reply = \<lparr>capture = hears t, chat = replies reply, speech = speaker_ok\<rparr>"

definition no_microphone :: capture_env where
  "no_microphone = (hears [])\<lparr>microphone := Raises (Exc ''OSError'')\<rparr>"

definition playback_fails :: tts_env where
  "playback_fails = speaker_ok\<lparr>play := Raises (Exc ''OSError'')\<rparr>"

definition multiple_choices :: chat_response where
  "multiple_choices =
     \<lparr>status_code = 300, text_body = chat_body (lit ''Hello.''),
      message_content = Returns (lit ''Hello.'')\<rparr>"

definition times_out :: capture_env where
  "times_out = (hears [])\<lparr>listen := Raises (Exc ''WaitTimeoutError'')\<rparr>"

definition release_fails :: capture_env where
  "release_fails = times_out\<lparr>microphone_exit := Raises (Exc ''OSError'')\<rparr>"

definition interrupted :: capture_env where
  "interrupted = (hears [])\<lparr>listen := Raises (BaseExc ''KeyboardInterrupt'')\<rparr>"

definition tts_down :: tts_env where
  "tts_down = speaker_ok\<lparr>tts_post := Raises (Exc ''ConnectionError'')\<rparr>"

definition server_error :: chat_response where
  "server_error = \<lparr>status_code = 500, text_body = [], message_content = Raises (Exc ''KeyError'')\<rparr>"

definition chat_down :: "chat_response outcome" where
  "chat_down = Raises (Exc ''ConnectionError'')"

definition stt_down :: capture_env where
  "stt_down = (hears [])\<lparr>stt_post := Raises (Exc ''ConnectionError'')\<rparr>"

text \<open>
  The acknowledgement as the specification writes it, with two apostrophes (U+0027).
\<close>

definition spec_stopped_msg :: pystr where
  "spec_stopped_msg = lit ''Voice chat stopped. Say '' @ [39] @ lit ''start'' @ [39] @ lit '' to resume.''"

section \<open>What the matcher accepts\<close>

lemma nonword_tail:
  "match_here W ic [MaxRepeat NotWord, AtEnd] b s \<longleftrightarrow> (\<forall>c\<in>set s. \<not> is_word W c)"
proof (induction s arbitrary: b)
  case Nil
  show ?case by simp
next
  case (Cons c cs)
  have "\<not> is_word W 10" by (simp add: is_word_def)
  with Cons show ?case by auto
qed

lemma max_repeat_split:
  "match_here W ic (MaxRepeat a # ns) b s \<longleftrightarrow>
     (\<exists>pre rest. s = pre @ rest \<and> (\<forall>c\<in>set pre. atom_accepts W ic a c)
        \<and> match_here W ic ns (b \<and> pre = []) rest)"
proof (induction s arbitrary: b)
  case Nil
  show ?case by simp
next
  case (Cons c cs)
  show ?case (is "?L = ?R")
  proof
    assume ?L
    then consider
      (more) "atom_accepts W ic a c" "match_here W ic (MaxRepeat a # ns) False cs"
      | (none) "match_here W ic ns b (c # cs)"
      by auto
    then show ?R
    proof cases
      case more
      from more(2) Cons.IH [of False] obtain pre rest where
        "cs = pre @ rest" "\<forall>x\<in>set pre. atom_accepts W ic a x" "match_here W ic ns False rest"
        by auto
      with more(1) show ?thesis
        by (intro exI [of _ "c # pre"] exI [of _ rest]) simp
    next
      case none
      then show ?thesis
        by (intro exI [of _ "[]"] exI [of _ "c # cs"]) simp
    qed
  next
    assume ?R
    then obtain pre rest where pr: "c # cs = pre @ rest"
      "\<forall>x\<in>set pre. atom_accepts W ic a x" "match_here W ic ns (b \<and> pre = []) rest"
      by blast
    show ?L
    proof (cases pre)
      case Nil
      with pr have "match_here W ic ns b (c # cs)" by simp
      then show ?thesis by simp
    next
      case (Cons p ps)
      with pr have "c = p" "cs = ps @ rest" "atom_accepts W ic a c"
        "\<forall>x\<in>set ps. atom_accepts W ic a x" "match_here W ic ns False rest"
        by auto
      then have "match_here W ic (MaxRepeat a # ns) False cs"
        using Cons.IH [of False] by auto
      with \<open>atom_accepts W ic a c\<close> show ?thesis by simp
    qed
  qed
qed

lemma literals_split:
  "match_here W True (literals w @ ns) b s \<longleftrightarrow>
     (\<exists>u rest. s = u @ rest \<and> caseless_eq w u \<and> match_here W True ns (b \<and> w = []) rest)"
proof (induction w arbitrary: b s)
  case Nil
  show ?case by (simp add: literals_def lit_def caseless_eq_def)
next
  case (Cons l w)
  have lits: "literals (l # w) = One (Literal (of_char l)) # literals w"
    by (simp add: literals_def lit_def)
  show ?case
  proof (cases s)
    case Nil
    then show ?thesis by (simp add: lits caseless_eq_def lit_def)
  next
    case (Cons c cs)
    have "match_here W True (literals (l # w) @ ns) b s \<longleftrightarrow>
        ignorecase_accepts (of_char l) c \<and> match_here W True (literals w @ ns) False cs"
      by (simp add: lits Cons)
    also have "\<dots> \<longleftrightarrow> ignorecase_accepts (of_char l) c \<and>
        (\<exists>u rest. cs = u @ rest \<and> caseless_eq w u \<and> match_here W True ns False rest)"
      by (simp add: Cons.IH)
    also have "\<dots> \<longleftrightarrow> (\<exists>u rest. s = u @ rest \<and> caseless_eq (l # w) u
        \<and> match_here W True ns (b \<and> l # w = []) rest)"
      (is "?A = ?B")
    proof
      assume ?A
      then obtain u rest where "ignorecase_accepts (of_char l) c" "cs = u @ rest"
        "caseless_eq w u" "match_here W True ns False rest" by blast
      then show ?B
        by (intro exI [of _ "c # u"] exI [of _ rest]) (simp add: Cons caseless_eq_def lit_def)
    next
      assume ?B
      then obtain u rest where ur: "s = u @ rest" "caseless_eq (l # w) u"
        "match_here W True ns False rest" by auto
      from ur(2) obtain c' u' where "u = c' # u'" "ignorecase_accepts (of_char l) c'"
        "caseless_eq w u'"
        by (auto simp: caseless_eq_def lit_def list_all2_Cons1)
      with ur Cons show ?A by auto
    qed
    finally show ?thesis .
  qed
qed

lemma word_pattern_match:
  assumes "w \<noteq> []"
  shows "match_here W True ([AtBeginning, MaxRepeat NotWord] @ literals w @ [MaxRepeat NotWord, AtEnd]) True t \<longleftrightarrow>
     (\<exists>pre u post. t = pre @ u @ post \<and> (\<forall>c\<in>set pre. \<not> is_word W c) \<and> caseless_eq w u
        \<and> (\<forall>c\<in>set post. \<not> is_word W c))"
  using assms
  by (simp add: max_repeat_split [of W True NotWord "literals w @ _"] literals_split nonword_tail)
    blast

lemma trim_sandwich:
  assumes "\<forall>c\<in>set pref. \<not> is_word W c" "\<forall>c\<in>set suf. \<not> is_word W c"
    and "u \<noteq> []" "is_word W (hd u)" "is_word W (last u)"
  shows "trim_nonword W (pref @ u @ suf) = u"
proof -
  let ?P = "\<lambda>c. \<not> is_word W c"
  have a: "dropWhile ?P (pref @ u @ suf) = u @ suf"
    using assms(1,3,4) by (cases u) (simp_all add: dropWhile_append)
  have b: "dropWhile ?P (rev suf @ rev u) = rev u"
    using assms(2,3,5) by (cases u rule: rev_cases) (simp_all add: dropWhile_append)
  show ?thesis by (simp add: trim_nonword_def a b)
qed

lemma trim_decomp:
  "\<exists>pref suf. t = pref @ trim_nonword W t @ suf
     \<and> (\<forall>c\<in>set pref. \<not> is_word W c) \<and> (\<forall>c\<in>set suf. \<not> is_word W c)"
proof -
  let ?P = "\<lambda>c. \<not> is_word W c"
  let ?d = "dropWhile ?P t"
  have 1: "t = takeWhile ?P t @ ?d" by simp
  have "rev (takeWhile ?P (rev ?d) @ dropWhile ?P (rev ?d)) = ?d"
    by (simp only: takeWhile_dropWhile_id rev_rev_ident)
  then have 2: "?d = trim_nonword W t @ rev (takeWhile ?P (rev ?d))"
    by (simp only: rev_append trim_nonword_def)
  have 3: "\<forall>c\<in>set (takeWhile ?P t). ?P c" by (auto dest: set_takeWhileD)
  have 4: "\<forall>c\<in>set (rev (takeWhile ?P (rev ?d))). ?P c" by (auto dest: set_takeWhileD)
  from 1 2 have "t = takeWhile ?P t @ trim_nonword W t @ rev (takeWhile ?P (rev ?d))"
    by simp
  with 3 4 show ?thesis by blast
qed

lemma accepts_s: "ignorecase_accepts 115 c \<longleftrightarrow> c = 115 \<or> c = 83 \<or> c = 383"
  by (auto simp: ignorecase_accepts_def ascii_lower_def)
lemma accepts_t: "ignorecase_accepts 116 c \<longleftrightarrow> c = 116 \<or> c = 84"
  by (auto simp: ignorecase_accepts_def ascii_lower_def)
lemma accepts_o: "ignorecase_accepts 111 c \<longleftrightarrow> c = 111 \<or> c = 79"
  by (auto simp: ignorecase_accepts_def ascii_lower_def)
lemma accepts_p: "ignorecase_accepts 112 c \<longleftrightarrow> c = 112 \<or> c = 80"
  by (auto simp: ignorecase_accepts_def ascii_lower_def)
lemma accepts_a: "ignorecase_accepts 97 c \<longleftrightarrow> c = 97 \<or> c = 65"
  by (auto simp: ignorecase_accepts_def ascii_lower_def)
lemma accepts_r: "ignorecase_accepts 114 c \<longleftrightarrow> c = 114 \<or> c = 82"
  by (auto simp: ignorecase_accepts_def ascii_lower_def)

lemmas accepts_letter = accepts_s accepts_t accepts_o accepts_p accepts_a accepts_r

lemma caseless_stop:
  "caseless_eq ''stop'' u \<longleftrightarrow>
     (\<exists>a b c d. u = [a, b, c, d] \<and> (a = 115 \<or> a = 83 \<or> a = 383) \<and> (b = 116 \<or> b = 84)
        \<and> (c = 111 \<or> c = 79) \<and> (d = 112 \<or> d = 80))"
  by (simp add: caseless_eq_def lit_def list_all2_Cons1 accepts_letter) blast

lemma caseless_start:
  "caseless_eq ''start'' u \<longleftrightarrow>
     (\<exists>a b c d e. u = [a, b, c, d, e] \<and> (a = 115 \<or> a = 83 \<or> a = 383) \<and> (b = 116 \<or> b = 84)
        \<and> (c = 97 \<or> c = 65) \<and> (d = 114 \<or> d = 82) \<and> (e = 116 \<or> e = 84))"
  by (simp add: caseless_eq_def lit_def list_all2_Cons1 accepts_letter) blast

lemma stop_pattern_match:
  "re_match W stop_pattern t \<longleftrightarrow>
     (\<exists>pref u suf. t = pref @ u @ suf \<and> (\<forall>c\<in>set pref. \<not> is_word W c) \<and> caseless_eq ''stop'' u
        \<and> (\<forall>c\<in>set suf. \<not> is_word W c))"
  unfolding re_match_def stop_pattern_def by (simp only: regex.simps) (rule word_pattern_match, simp)

lemma start_pattern_match:
  "re_match W start_pattern t \<longleftrightarrow>
     (\<exists>pref u suf. t = pref @ u @ suf \<and> (\<forall>c\<in>set pref. \<not> is_word W c) \<and> caseless_eq ''start'' u
        \<and> (\<forall>c\<in>set suf. \<not> is_word W c))"
  unfolding re_match_def start_pattern_def by (simp only: regex.simps) (rule word_pattern_match, simp)

lemma stop_ends:
  assumes "is_word W 383" "caseless_eq ''stop'' u"
  shows "u \<noteq> [] \<and> is_word W (hd u) \<and> is_word W (last u)"
proof -
  from assms(2) obtain a b c d where u: "u = [a, b, c, d]"
    "a = 115 \<or> a = 83 \<or> a = 383" "d = 112 \<or> d = 80"
    unfolding caseless_stop by blast
  from u(2) assms(1) have "is_word W a" by (auto simp: is_word_def)
  moreover from u(3) have "is_word W d" by (auto simp: is_word_def)
  ultimately show ?thesis using u(1) by simp
qed

lemma start_ends:
  assumes "is_word W 383" "caseless_eq ''start'' u"
  shows "u \<noteq> [] \<and> is_word W (hd u) \<and> is_word W (last u)"
proof -
  from assms(2) obtain a b c d e where u: "u = [a, b, c, d, e]"
    "a = 115 \<or> a = 83 \<or> a = 383" "e = 116 \<or> e = 84"
    unfolding caseless_start by blast
  from u(2) assms(1) have "is_word W a" by (auto simp: is_word_def)
  moreover from u(3) have "is_word W e" by (auto simp: is_word_def)
  ultimately show ?thesis using u(1) by simp
qed

lemma stop_is_exactly:
  assumes "is_word W 383"
  shows "re_match W stop_pattern t \<longleftrightarrow> is_exactly W ''stop'' t"
proof
  assume "re_match W stop_pattern t"
  then obtain pref u suf where *: "t = pref @ u @ suf" "\<forall>c\<in>set pref. \<not> is_word W c"
    "caseless_eq ''stop'' u" "\<forall>c\<in>set suf. \<not> is_word W c"
    unfolding stop_pattern_match by blast
  with stop_ends [OF assms *(3)] have "trim_nonword W t = u"
    by (simp add: trim_sandwich)
  with * show "is_exactly W ''stop'' t" by (simp add: is_exactly_def)
next
  assume "is_exactly W ''stop'' t"
  with trim_decomp [of t W] show "re_match W stop_pattern t"
    unfolding stop_pattern_match is_exactly_def by blast
qed

lemma start_is_exactly:
  assumes "is_word W 383"
  shows "re_match W start_pattern t \<longleftrightarrow> is_exactly W ''start'' t"
proof
  assume "re_match W start_pattern t"
  then obtain pref u suf where *: "t = pref @ u @ suf" "\<forall>c\<in>set pref. \<not> is_word W c"
    "caseless_eq ''start'' u" "\<forall>c\<in>set suf. \<not> is_word W c"
    unfolding start_pattern_match by blast
  with start_ends [OF assms *(3)] have "trim_nonword W t = u"
    by (simp add: trim_sandwich)
  with * show "is_exactly W ''start'' t" by (simp add: is_exactly_def)
next
  assume "is_exactly W ''start'' t"
  with trim_decomp [of t W] show "re_match W start_pattern t"
    unfolding start_pattern_match is_exactly_def by blast
qed

lemma stop_last_word:
  assumes "re_match W stop_pattern t"
  shows "filter (is_word W) t \<noteq> [] \<and> last (filter (is_word W) t) \<in> {112, 80}"
proof -
  from assms obtain pref u suf where *: "t = pref @ u @ suf"
    "caseless_eq ''stop'' u" "\<forall>c\<in>set suf. \<not> is_word W c"
    unfolding stop_pattern_match by blast
  from *(3) have "filter (is_word W) suf = []" by (simp add: filter_empty_conv)
  moreover from *(2) obtain a b c d where "u = [a, b, c] @ [d]" "d = 112 \<or> d = 80"
    unfolding caseless_stop by auto
  moreover from this have "is_word W d" by (auto simp: is_word_def)
  ultimately show ?thesis using *(1) by auto
qed

lemma start_last_word:
  assumes "re_match W start_pattern t"
  shows "filter (is_word W) t \<noteq> [] \<and> last (filter (is_word W) t) \<in> {116, 84}"
proof -
  from assms obtain pref u suf where *: "t = pref @ u @ suf"
    "caseless_eq ''start'' u" "\<forall>c\<in>set suf. \<not> is_word W c"
    unfolding start_pattern_match by blast
  from *(3) have "filter (is_word W) suf = []" by (simp add: filter_empty_conv)
  moreover from *(2) obtain a b c d e where "u = [a, b, c, d] @ [e]" "e = 116 \<or> e = 84"
    unfolding caseless_start by auto
  moreover from this have "is_word W e" by (auto simp: is_word_def)
  ultimately show ?thesis using *(1) by auto
qed

lemma not_both: "\<not> (re_match W stop_pattern t \<and> re_match W start_pattern t)"
  using stop_last_word [of W t] start_last_word [of W t] by auto

subsection \<open>The requests of each function\<close>

lemma issued_append: "requests w' = requests w @ rs \<Longrightarrow> issued w w' = rs"
  by (simp add: issued_def)

lemma spoken_append: "spoken (xs @ ys) = spoken xs @ spoken ys"
  by (induction xs rule: spoken.induct) simp_all

lemma asked_append: "asked (xs @ ys) = asked xs @ asked ys"
  by (induction xs rule: asked.induct) simp_all

lemma process_voice_input_requests:
  assumes "process_voice_input env w = (r, w1)"
  shows "\<exists>rs. requests w1 = requests w @ rs \<and> spoken rs = [] \<and> asked rs = []"
  using assms
  by (auto simp: process_voice_input_def logging_def post_def Let_def
      split: outcome.splits if_splits)

lemma text_to_speech_requests:
  assumes "text_to_speech env txt w = (r, w')"
  shows "requests w' = requests w @ [Speech txt]"
  using assms
  by (auto simp: text_to_speech_def logging_def post_def Let_def
      split: outcome.splits if_splits)

lemma query_llm_requests:
  assumes "query_llm n c p m w = (r, w')"
  shows "\<exists>s. requests w' = requests w @ [Chat_completions s p m]"
  using assms
  by (auto simp: query_llm_def logging_def post_def Let_def
      split: outcome.splits if_splits)

lemma stop_nonempty: "re_match W stop_pattern t \<Longrightarrow> t \<noteq> []"
  using stop_last_word [of W t] by auto

lemma start_nonempty: "re_match W start_pattern t \<Longrightarrow> t \<noteq> []"
  using start_last_word [of W t] by auto

lemmas eval_match = re_match_def stop_pattern_def start_pattern_def literals_def lit_def
  is_word_def ignorecase_accepts_def ascii_lower_def

section \<open>The claims\<close>

text \<open>
  C2. For every transcript \<open>t\<close>, the classification is \<open>Stop\<close> if and only if
  \<open>t\<close>, trimmed of the non-word characters around it and compared without regard to
  case, is exactly the word stop, and \<open>Start\<close> if and only if it is so the word
  start; \<open>Stop.\<close> and \<open>STOP\<close> are \<open>Stop\<close>, \<open>please stop\<close> is \<open>Other\<close>.
  The character database is taken to know U+017F, which the pattern accepts for
  \<open>s\<close>, as the letter it is.
\<close>

theorem classify_exact_word:
  assumes "is_word W 383"
  shows "(classify W t = Stop \<longleftrightarrow> is_exactly W ''stop'' t)
    \<and> (classify W t = Start \<longleftrightarrow> is_exactly W ''start'' t)
    \<and> classify W (lit ''Stop.'') = Stop
    \<and> classify W (lit ''please stop'') = Other
    \<and> classify W (lit ''STOP'') = Stop"
proof -
  have "classify W t = Stop \<longleftrightarrow> is_exactly W ''stop'' t"
    by (simp add: classify_def stop_is_exactly [OF assms])
  moreover have "classify W t = Start \<longleftrightarrow> is_exactly W ''start'' t"
    using stop_last_word [of W t] start_last_word [of W t]
    by (auto simp: classify_def start_is_exactly [OF assms, symmetric])
  moreover have "classify W (lit ''Stop.'') = Stop"
    by (simp add: classify_def eval_match)
  moreover have "classify W (lit ''please stop'') = Other"
    by (simp add: classify_def eval_match)
  moreover have "classify W (lit ''STOP'') = Stop"
    by (simp add: classify_def eval_match)
  ultimately show ?thesis by blast
qed

theorem classify_exact_word_witness:
  "is_word long_s 383 \<and> classify long_s ([383] @ lit ''top!'') = Stop
   \<and> is_exactly long_s ''stop'' ([383] @ lit ''top!'')
   \<and> classify long_s (lit ''please stop'') = Other"
proof -
  have h: "is_word long_s 383" by (simp add: long_s_def is_word_def)
  have "classify long_s ([383] @ lit ''top!'') = Stop"
    by (simp add: classify_def eval_match long_s_def)
  with h classify_exact_word [OF h, of "[383] @ lit ''top!''"] show ?thesis by simp
qed

lemma iteration_heard:
  assumes "process_voice_input (capture env) w = (Returns raw, w1)"
  shows "iteration W n env l w =
     (if raw = [] then (Returns l, w1)
      else if l \<and> re_match W stop_pattern raw then
        (case text_to_speech (speech env) stopped_msg w1 of
           (Raises e, w2) \<Rightarrow> (Raises e, w2)
         | (Returns _, w2) \<Rightarrow> (Returns False, w2))
      else if \<not> l \<and> re_match W start_pattern raw then
        (case text_to_speech (speech env) resumed_msg w1 of
           (Raises e, w2) \<Rightarrow> (Raises e, w2)
         | (Returns _, w2) \<Rightarrow> (Returns True, w2))
      else if l then
        (case query_llm n (chat env) raw 64 w1 of
           (Raises e, w2) \<Rightarrow> (Raises e, w2)
         | (Returns reply, w2) \<Rightarrow>
        (case text_to_speech (speech env) reply w2 of
           (Raises e, w3) \<Rightarrow> (Raises e, w3)
         | (Returns _, w3) \<Rightarrow> (Returns l, w3)))
      else (Returns l, w1))"
  using assms by (simp add: iteration_def)

lemma speak_then:
  assumes "process_voice_input (capture env) w = (r, w1)"
  shows "spoken (issued w (snd (case text_to_speech tts msg w1 of
            (Raises e, w2) \<Rightarrow> (Raises e, w2)
          | (Returns u, w2) \<Rightarrow> (Returns b, w2)))) = [msg]
     \<and> asked (issued w (snd (case text_to_speech tts msg w1 of
            (Raises e, w2) \<Rightarrow> (Raises e, w2)
          | (Returns u, w2) \<Rightarrow> (Returns b, w2)))) = []
     \<and> fst (case text_to_speech tts msg w1 of
            (Raises e, w2) \<Rightarrow> (Raises e, w2)
          | (Returns u, w2) \<Rightarrow> (Returns b, w2))
        = (case fst (text_to_speech tts msg w1) of Raises e \<Rightarrow> Raises e | Returns u \<Rightarrow> Returns b)"
proof -
  obtain r2 w2 where t: "text_to_speech tts msg w1 = (r2, w2)" by (cases "text_to_speech tts msg w1")
  from process_voice_input_requests [OF assms] obtain rs where
    rs: "requests w1 = requests w @ rs" "spoken rs = []" "asked rs = []" by blast
  from text_to_speech_requests [OF t] rs(1) have "issued w w2 = rs @ [Speech msg]"
    by (simp add: issued_def)
  with rs t show ?thesis by (cases r2) (simp_all add: spoken_append asked_append)
qed


lemma stop_branch:
  assumes "fst (process_voice_input (capture env) w) = Returns raw"
    and "re_match W stop_pattern raw"
  shows "spoken (issued w (snd (iteration W n env True w))) = [stopped_msg]
    \<and> asked (issued w (snd (iteration W n env True w))) = []
    \<and> fst (iteration W n env True w) =
        (case fst (text_to_speech (speech env) stopped_msg
                    (snd (process_voice_input (capture env) w))) of
           Raises e \<Rightarrow> Raises e | Returns u \<Rightarrow> Returns False)"
proof -
  obtain w1 where h: "process_voice_input (capture env) w = (Returns raw, w1)"
    using assms(1) by (cases "process_voice_input (capture env) w") simp
  show ?thesis
    using speak_then [OF h, where tts = "speech env" and msg = stopped_msg and b = False]
    by (simp add: iteration_heard [OF h] stop_nonempty [OF assms(2)] assms(2) h)
qed

lemma hears_returns:
  "process_voice_input (hears t) w =
     (Returns (strip t),
      w\<lparr>files := insert ''prompt.wav'' (files w) - {''prompt.wav''},
        log := log w @ [Waiting_for_voice, USER (strip t)],
        requests := requests w @ [Transcriptions []]\<rparr>)"
  by (simp add: process_voice_input_def hears_def raise_for_status_def logging_def post_def)

lemma strip_Stop: "strip (lit ''Stop'') = lit ''Stop''"
  by (simp add: strip_def isspace_def lit_def)

lemma speaker_ok_returns:
  "fst (text_to_speech speaker_ok msg w) = Returns ()"
  by (simp add: text_to_speech_def speaker_ok_def logging_def post_def)

theorem stop_acknowledged_ascii_counterexample:
  "spoken (issued empty_world
      (snd (iteration long_s [] (turn (lit ''Stop'') []) True empty_world))) \<noteq> [spec_stopped_msg]"
proof -
  have "fst (process_voice_input (capture (turn (lit ''Stop'') [])) empty_world) = Returns (lit ''Stop'')"
    by (simp add: turn_def hears_returns strip_Stop)
  moreover have "re_match long_s stop_pattern (lit ''Stop'')"
    by (simp add: eval_match)
  ultimately have "spoken (issued empty_world
      (snd (iteration long_s [] (turn (lit ''Stop'') []) True empty_world))) = [stopped_msg]"
    using stop_branch by blast
  moreover have "stopped_msg \<noteq> spec_stopped_msg"
    by (simp add: stopped_msg_def spec_stopped_msg_def lit_def)
  ultimately show ?thesis by simp
qed

text \<open>
  C3, amended. In state Listening, a transcript that matches the Stop pattern makes the
  loop give the Speaker exactly one text, \<open>Voice chat stopped. Say \<close>U+2018\<open>start\<close>U+2019
  \<open> to resume.\<close> with the typographic quotation marks of the source, and nothing to
  the ChatClient; when the Speaker returns the state is Paused, and when it raises, its
  exception leaves the loop.
\<close>

theorem stop_acknowledged:
  assumes "fst (process_voice_input (capture env) w) = Returns raw"
    and "re_match W stop_pattern raw"
  shows "spoken (issued w (snd (iteration W n env True w))) = [stopped_msg]
    \<and> asked (issued w (snd (iteration W n env True w))) = []
    \<and> fst (iteration W n env True w) =
        (case fst (text_to_speech (speech env) stopped_msg
                    (snd (process_voice_input (capture env) w))) of
           Raises e \<Rightarrow> Raises e | Returns u \<Rightarrow> Returns False)"
  using assms by (rule stop_branch)

theorem stop_acknowledged_witness:
  "fst (process_voice_input (capture (turn (lit ''Stop'') [])) empty_world) = Returns (lit ''Stop'')
   \<and> re_match long_s stop_pattern (lit ''Stop'')
   \<and> spoken (issued empty_world
        (snd (iteration long_s [] (turn (lit ''Stop'') []) True empty_world))) = [stopped_msg]
   \<and> asked (issued empty_world
        (snd (iteration long_s [] (turn (lit ''Stop'') []) True empty_world))) = []
   \<and> fst (iteration long_s [] (turn (lit ''Stop'') []) True empty_world) = Returns False"
proof -
  have h: "fst (process_voice_input (capture (turn (lit ''Stop'') [])) empty_world) = Returns (lit ''Stop'')"
    by (simp add: turn_def hears_returns strip_Stop)
  have m: "re_match long_s stop_pattern (lit ''Stop'')"
    by (simp add: eval_match)
  have s: "speech (turn (lit ''Stop'') []) = speaker_ok" by (simp add: turn_def)
  show ?thesis
    using h m stop_acknowledged [OF h m, of "[]"] by (simp add: s speaker_ok_returns)
qed

lemma heard_world:
  assumes "fst (process_voice_input (capture env) w) = Returns raw"
  shows "process_voice_input (capture env) w =
     (Returns raw, snd (process_voice_input (capture env) w))"
  using assms by (cases "process_voice_input (capture env) w") simp

lemma heard_no_calls:
  "spoken (issued w (snd (process_voice_input env w))) = []
   \<and> asked (issued w (snd (process_voice_input env w))) = []"
proof -
  obtain r w1 where h: "process_voice_input env w = (r, w1)"
    by (cases "process_voice_input env w")
  from process_voice_input_requests [OF h] show ?thesis
    by (auto simp: h issued_def)
qed

lemma paused_step:
  assumes "fst (process_voice_input (capture env) w) = Returns raw"
    and "\<not> re_match W start_pattern raw"
  shows "iteration W n env False w = (Returns False, snd (process_voice_input (capture env) w))"
  using assms(2) by (simp add: iteration_heard [OF heard_world [OF assms(1)]])

lemma stop_strip: "strip (lit ''stop'') = lit ''stop''"
  by (simp add: strip_def isspace_def lit_def)

text \<open>
  C4. While the listening flag is false, a transcript that is not a match of the Start
  pattern is discarded: the iteration ends in state Paused in the world the capture
  left, with no text for the Speaker and no prompt for the ChatClient; in particular two
  iterations in a row that hear a match of the Stop pattern leave the state Paused and
  call neither.
\<close>

theorem paused_discards:
  assumes "fst (process_voice_input (capture env) w) = Returns raw"
    and "\<not> re_match W start_pattern raw"
  shows "iteration W n env False w = (Returns False, snd (process_voice_input (capture env) w))
    \<and> spoken (issued w (snd (iteration W n env False w))) = []
    \<and> asked (issued w (snd (iteration W n env False w))) = []
    \<and> (\<forall>env' raw'. re_match W stop_pattern raw \<and> re_match W stop_pattern raw'
          \<and> fst (process_voice_input (capture env') (snd (process_voice_input (capture env) w)))
              = Returns raw'
        \<longrightarrow> main_loop W n [env, env'] False w
            = (Returns False,
               snd (process_voice_input (capture env') (snd (process_voice_input (capture env) w)))))"
proof -
  have 1: "iteration W n env False w = (Returns False, snd (process_voice_input (capture env) w))"
    using assms by (rule paused_step)
  have 2: "main_loop W n [env, env'] False w
       = (Returns False,
          snd (process_voice_input (capture env') (snd (process_voice_input (capture env) w))))"
    if "re_match W stop_pattern raw'"
      "fst (process_voice_input (capture env') (snd (process_voice_input (capture env) w))) = Returns raw'"
    for env' raw'
  proof -
    from that(1) have "\<not> re_match W start_pattern raw'"
      using stop_last_word [of W raw'] start_last_word [of W raw'] by auto
    from paused_step [OF that(2) this] show ?thesis by (simp add: 1)
  qed
  have 3: "spoken (issued w (snd (iteration W n env False w))) = []
      \<and> asked (issued w (snd (iteration W n env False w))) = []"
    by (simp add: 1 heard_no_calls)
  from 1 2 3 show ?thesis by blast
qed

theorem paused_discards_witness:
  "fst (process_voice_input (capture (turn (lit ''stop'') [])) empty_world) = Returns (lit ''stop'')
   \<and> \<not> re_match long_s start_pattern (lit ''stop'')
   \<and> fst (iteration long_s [] (turn (lit ''stop'') []) False empty_world) = Returns False
   \<and> spoken (issued empty_world
        (snd (iteration long_s [] (turn (lit ''stop'') []) False empty_world))) = []
   \<and> asked (issued empty_world
        (snd (iteration long_s [] (turn (lit ''stop'') []) False empty_world))) = []
   \<and> fst (main_loop long_s [] [turn (lit ''stop'') [], turn (lit ''stop'') []] False empty_world)
       = Returns False"
proof -
  have h: "fst (process_voice_input (capture (turn (lit ''stop'') [])) w) = Returns (lit ''stop'')"
    for w by (simp add: turn_def hears_returns stop_strip)
  have m: "\<not> re_match long_s start_pattern (lit ''stop'')"
    by (simp add: eval_match)
  have s: "re_match long_s stop_pattern (lit ''stop'')"
    by (simp add: eval_match)
  let ?e = "turn (lit ''stop'') []"
  note p = paused_discards [OF h m, of "[]" empty_world]
  from p have a: "iteration long_s [] ?e False empty_world
      = (Returns False, snd (process_voice_input (capture ?e) empty_world))"
    by blast
  from p have b: "spoken (issued empty_world (snd (iteration long_s [] ?e False empty_world))) = []"
    by blast
  from p have c: "asked (issued empty_world (snd (iteration long_s [] ?e False empty_world))) = []"
    by blast
  from p s h have d: "main_loop long_s [] [?e, ?e] False empty_world
      = (Returns False, snd (process_voice_input (capture ?e)
           (snd (process_voice_input (capture ?e) empty_world))))"
    by blast
  from h [of empty_world] m a b c d show ?thesis by (simp only: fst_conv simp_thms)
qed

text \<open>
  C5. An iteration whose capture or transcription yields the empty transcript leaves the
  listening flag as it was, in state Listening and in state Paused, and gives nothing to
  the Speaker and nothing to the ChatClient.
\<close>

theorem empty_transcript_ignored:
  assumes "fst (process_voice_input (capture env) w) = Returns []"
  shows "iteration W n env l w = (Returns l, snd (process_voice_input (capture env) w))
    \<and> spoken (issued w (snd (iteration W n env l w))) = []
    \<and> asked (issued w (snd (iteration W n env l w))) = []"
  by (simp add: iteration_heard [OF heard_world [OF assms]] heard_no_calls)


theorem empty_transcript_ignored_witness:
  "fst (process_voice_input (capture (turn [] [])) empty_world) = Returns []
   \<and> fst (iteration long_s [] (turn [] []) True empty_world) = Returns True
   \<and> fst (iteration long_s [] (turn [] []) False empty_world) = Returns False
   \<and> spoken (issued empty_world (snd (iteration long_s [] (turn [] []) True empty_world))) = []
   \<and> asked (issued empty_world (snd (iteration long_s [] (turn [] []) True empty_world))) = []"
proof -
  have h: "fst (process_voice_input (capture (turn [] [])) empty_world) = Returns []"
    by (simp add: turn_def hears_returns strip_def)
  from h empty_transcript_ignored [OF h, of long_s "[]" True]
    empty_transcript_ignored [OF h, of long_s "[]" False]
  show ?thesis by (simp add: heard_no_calls)
qed

lemma chat_then:
  assumes "process_voice_input (capture env) w = (r, w1)"
  shows "spoken (issued w (snd (case query_llm n c raw m w1 of
            (Raises e, w2) \<Rightarrow> (Raises e, w2)
          | (Returns reply, w2) \<Rightarrow>
              (case text_to_speech tts reply w2 of
                 (Raises e, w3) \<Rightarrow> (Raises e, w3)
               | (Returns u, w3) \<Rightarrow> (Returns b, w3)))))
       = (case fst (query_llm n c raw m w1) of Raises e \<Rightarrow> [] | Returns reply \<Rightarrow> [reply])
     \<and> asked (issued w (snd (case query_llm n c raw m w1 of
            (Raises e, w2) \<Rightarrow> (Raises e, w2)
          | (Returns reply, w2) \<Rightarrow>
              (case text_to_speech tts reply w2 of
                 (Raises e, w3) \<Rightarrow> (Raises e, w3)
               | (Returns u, w3) \<Rightarrow> (Returns b, w3))))) = [raw]
     \<and> fst (case query_llm n c raw m w1 of
            (Raises e, w2) \<Rightarrow> (Raises e, w2)
          | (Returns reply, w2) \<Rightarrow>
              (case text_to_speech tts reply w2 of
                 (Raises e, w3) \<Rightarrow> (Raises e, w3)
               | (Returns u, w3) \<Rightarrow> (Returns b, w3)))
       = (case fst (query_llm n c raw m w1) of
            Raises e \<Rightarrow> Raises e
          | Returns reply \<Rightarrow>
              (case fst (text_to_speech tts reply (snd (query_llm n c raw m w1))) of
                 Raises e \<Rightarrow> Raises e
               | Returns u \<Rightarrow> Returns b))"
proof -
  obtain r2 w2 where q: "query_llm n c raw m w1 = (r2, w2)" by (cases "query_llm n c raw m w1")
  from process_voice_input_requests [OF assms] obtain rs where
    rs: "requests w1 = requests w @ rs" "spoken rs = []" "asked rs = []" by blast
  from query_llm_requests [OF q] obtain s where
    s: "requests w2 = requests w1 @ [Chat_completions s raw m]" by blast
  show ?thesis
  proof (cases r2)
    case (Raises e)
    from rs s have "issued w w2 = rs @ [Chat_completions s raw m]" by (simp add: issued_def)
    with rs Raises q show ?thesis by (simp add: spoken_append asked_append)
  next
    case (Returns reply)
    obtain r3 w3 where t: "text_to_speech tts reply w2 = (r3, w3)"
      by (cases "text_to_speech tts reply w2")
    from text_to_speech_requests [OF t] rs s
    have "issued w w3 = rs @ [Chat_completions s raw m, Speech reply]" by (simp add: issued_def)
    with rs Returns q t show ?thesis by (cases r3) (simp_all add: spoken_append asked_append)
  qed
qed

lemma chat_branch:
  assumes "fst (process_voice_input (capture env) w) = Returns raw"
    and "raw \<noteq> []" "\<not> re_match W stop_pattern raw"
  shows "fst (iteration W n env True w) =
        (case fst (query_llm n (chat env) raw 64 (snd (process_voice_input (capture env) w))) of
           Raises e \<Rightarrow> Raises e
         | Returns reply \<Rightarrow>
             (case fst (text_to_speech (speech env) reply
                    (snd (query_llm n (chat env) raw 64
                       (snd (process_voice_input (capture env) w))))) of
                Raises e \<Rightarrow> Raises e
              | Returns u \<Rightarrow> Returns True))
    \<and> spoken (issued w (snd (iteration W n env True w))) =
        (case fst (query_llm n (chat env) raw 64 (snd (process_voice_input (capture env) w))) of
           Raises e \<Rightarrow> [] | Returns reply \<Rightarrow> [reply])
    \<and> asked (issued w (snd (iteration W n env True w))) = [raw]"
  using chat_then [OF heard_world [OF assms(1)], where n = n and c = "chat env" and raw = raw
      and m = 64 and tts = "speech env" and b = True] assms(2,3)
  by (simp add: iteration_heard [OF heard_world [OF assms(1)]])

text \<open>
  C6. In state Listening a transcript that matches the Start pattern is an utterance
  like any other: the state does not become Paused, the transcript is the one prompt
  given to the ChatClient, and the Speaker is given the reply of the ChatClient and no
  acknowledgement of its own; the state is Listening when both calls return.
\<close>

theorem start_while_listening:
  assumes "fst (process_voice_input (capture env) w) = Returns raw"
    and "re_match W start_pattern raw"
  shows "fst (iteration W n env True w) \<noteq> Returns False
    \<and> fst (iteration W n env True w) =
        (case fst (query_llm n (chat env) raw 64 (snd (process_voice_input (capture env) w))) of
           Raises e \<Rightarrow> Raises e
         | Returns reply \<Rightarrow>
             (case fst (text_to_speech (speech env) reply
                    (snd (query_llm n (chat env) raw 64
                       (snd (process_voice_input (capture env) w))))) of
                Raises e \<Rightarrow> Raises e
              | Returns u \<Rightarrow> Returns True))
    \<and> spoken (issued w (snd (iteration W n env True w))) =
        (case fst (query_llm n (chat env) raw 64 (snd (process_voice_input (capture env) w))) of
           Raises e \<Rightarrow> [] | Returns reply \<Rightarrow> [reply])
    \<and> asked (issued w (snd (iteration W n env True w))) = [raw]"
proof -
  from assms(2) have "raw \<noteq> []" by (rule start_nonempty)
  moreover from assms(2) have "\<not> re_match W stop_pattern raw"
    using stop_last_word [of W raw] start_last_word [of W raw] by auto
  ultimately have c: "fst (iteration W n env True w) =
        (case fst (query_llm n (chat env) raw 64 (snd (process_voice_input (capture env) w))) of
           Raises e \<Rightarrow> Raises e
         | Returns reply \<Rightarrow>
             (case fst (text_to_speech (speech env) reply
                    (snd (query_llm n (chat env) raw 64
                       (snd (process_voice_input (capture env) w))))) of
                Raises e \<Rightarrow> Raises e
              | Returns u \<Rightarrow> Returns True))
    \<and> spoken (issued w (snd (iteration W n env True w))) =
        (case fst (query_llm n (chat env) raw 64 (snd (process_voice_input (capture env) w))) of
           Raises e \<Rightarrow> [] | Returns reply \<Rightarrow> [reply])
    \<and> asked (issued w (snd (iteration W n env True w))) = [raw]"
    using chat_branch [OF assms(1)] by blast
  then have "fst (iteration W n env True w) \<noteq> Returns False"
    by (simp split: outcome.splits)
  with c show ?thesis by blast
qed


lemma replies_returns: "fst (query_llm n (replies t) p m w) = Returns (strip t)"
  by (simp add: query_llm_def replies_def raise_for_status_def logging_def post_def)

lemma strip_words:
  "strip (lit ''start'') = lit ''start''" "strip (lit ''Hello.'') = lit ''Hello.''"
  by (simp_all add: strip_def isspace_def lit_def)

theorem start_while_listening_witness:
  "fst (process_voice_input (capture (turn (lit ''start'') (lit ''Hello.''))) empty_world)
     = Returns (lit ''start'')
   \<and> re_match long_s start_pattern (lit ''start'')
   \<and> fst (iteration long_s [] (turn (lit ''start'') (lit ''Hello.'')) True empty_world) = Returns True
   \<and> spoken (issued empty_world
        (snd (iteration long_s [] (turn (lit ''start'') (lit ''Hello.'')) True empty_world)))
       = [lit ''Hello.'']
   \<and> asked (issued empty_world
        (snd (iteration long_s [] (turn (lit ''start'') (lit ''Hello.'')) True empty_world)))
       = [lit ''start'']"
proof -
  let ?e = "turn (lit ''start'') (lit ''Hello.'')"
  have h: "fst (process_voice_input (capture ?e) empty_world) = Returns (lit ''start'')"
    by (simp add: turn_def hears_returns strip_words)
  have m: "re_match long_s start_pattern (lit ''start'')"
    by (simp add: eval_match)
  have c: "chat ?e = replies (lit ''Hello.'')" "speech ?e = speaker_ok"
    by (simp_all add: turn_def)
  from h m start_while_listening [OF h m, of "[]"] show ?thesis
    by (simp add: c replies_returns speaker_ok_returns strip_words)
qed

lemma iteration_raised:
  assumes "process_voice_input (capture env) w = (Raises e, w1)"
  shows "iteration W n env l w = (Raises e, w1)"
  using assms by (simp add: iteration_def)

lemma one_speech:
  "length (spoken (issued w (snd (iteration W n env l w)))) \<le> 1"
proof (cases "process_voice_input (capture env) w")
  case (Pair r w1)
  show ?thesis
  proof (cases r)
    case (Raises e)
    with Pair heard_no_calls [of w "capture env"] show ?thesis
      by (simp add: iteration_raised)
  next
    case (Returns raw)
    with Pair have h: "process_voice_input (capture env) w = (Returns raw, w1)" by simp
    have q: "snd (process_voice_input (capture env) w) = w1" by (simp add: h)
    note sp = speak_then [OF h, where tts = "speech env"]
    note ch = chat_then [OF h, where tts = "speech env" and c = "chat env" and m = 64
        and n = n and raw = raw and b = l]
    from heard_no_calls [of w "capture env"] sp [where msg = stopped_msg and b = False]
      sp [where msg = resumed_msg and b = True] ch
    show ?thesis
      by (simp add: iteration_heard [OF h] q split: outcome.splits)
  qed
qed

text \<open>
  C10. No transcript matches both \<open>^\W*stop\W*$\<close> and \<open>^\W*start\W*$\<close>, so the
  classification does not depend on the order of the two tests: it is \<open>Stop\<close> exactly
  on a match of the first, \<open>Start\<close> exactly on a match of the second, \<open>Other\<close>
  exactly when neither matches; and an iteration of the loop gives the Speaker at most
  one text, so never both acknowledgements.
\<close>

theorem wake_words_exclusive:
  "\<not> (re_match W stop_pattern t \<and> re_match W start_pattern t)
   \<and> (classify W t = Stop) = re_match W stop_pattern t
   \<and> (classify W t = Start) = re_match W start_pattern t
   \<and> (classify W t = Other) = (\<not> re_match W stop_pattern t \<and> \<not> re_match W start_pattern t)
   \<and> length (spoken (issued w (snd (iteration W n env l w)))) \<le> 1"
  using stop_last_word [of W t] start_last_word [of W t] one_speech [of w W n env l]
  by (auto simp: classify_def)

theorem wake_words_exclusive_witness:
  "re_match long_s stop_pattern (lit ''Stop.'') \<and> \<not> re_match long_s start_pattern (lit ''Stop.'')
   \<and> classify long_s (lit ''Stop.'') = Stop"
  using wake_words_exclusive [of long_s "lit ''Stop.''"] by (simp add: eval_match)

lemma query_llm_transport:
  "fst (query_llm n (Raises e) p m w) = Raises e"
  by (simp add: query_llm_def Let_def)

lemma query_llm_status:
  assumes "400 \<le> status_code r" "status_code r < 600"
  shows "fst (query_llm n (Returns r) p m w) = Raises (Exc ''HTTPError'')"
  using assms by (simp add: query_llm_def raise_for_status_def Let_def)

lemma main_loop_raised:
  assumes "fst (iteration W n env l w) = Raises e"
  shows "fst (main_loop W n (env # envs) l w) = Raises e"
  using assms by (cases "iteration W n env l w") simp

lemma chat_raised:
  assumes "fst (process_voice_input (capture env) w) = Returns raw"
    and "raw \<noteq> []" "\<not> re_match W stop_pattern raw"
    and "fst (query_llm n (chat env) raw 64 (snd (process_voice_input (capture env) w))) = Raises e"
  shows "fst (main_loop W n (env # envs) True w) = Raises e"
proof -
  from chat_branch [OF assms(1,2,3), of n] assms(4)
  have "fst (iteration W n env True w) = Raises e" by simp
  then show ?thesis by (rule main_loop_raised)
qed

lemma text_to_speech_transport:
  assumes "tts_post env = Raises e"
  shows "fst (text_to_speech env msg w) = Raises e"
  using assms by (simp add: text_to_speech_def Let_def)

lemma strip_Hello: "strip (lit ''Hello'') = lit ''Hello''"
  by (simp add: strip_def isspace_def lit_def)

lemma Hello_other:
  "lit ''Hello'' \<noteq> []" "\<not> re_match W stop_pattern (lit ''Hello'')"
  by (simp_all add: eval_match)

theorem query_llm_non_2xx_counterexample:
  "\<not> (200 \<le> status_code multiple_choices \<and> status_code multiple_choices < 300)
   \<and> fst (query_llm [] (Returns multiple_choices) (lit ''Hello'') 64 empty_world) = Returns (lit ''Hello.'')
   \<and> fst (query_llm [] (replies (lit ''Hello.'')) (lit ''Hello'') 64
             (snd (process_voice_input (hears (lit ''Hello'')) empty_world))) = Returns (lit ''Hello.'')
   \<and> fst (main_loop long_s [] [(turn (lit ''Hello'') (lit ''Hello.''))\<lparr>speech := tts_down\<rparr>]
             True empty_world) = Raises (Exc ''ConnectionError'')"
proof -
  let ?e = "(turn (lit ''Hello'') (lit ''Hello.''))\<lparr>speech := tts_down\<rparr>"
  have 1: "\<not> (200 \<le> status_code multiple_choices \<and> status_code multiple_choices < 300)"
    by (simp add: multiple_choices_def)
  have 2: "fst (query_llm [] (Returns multiple_choices) (lit ''Hello'') 64 empty_world)
      = Returns (lit ''Hello.'')"
    by (simp add: query_llm_def multiple_choices_def raise_for_status_def logging_def post_def
        strip_words)
  have 3: "fst (query_llm [] (replies (lit ''Hello.'')) (lit ''Hello'') 64 w) = Returns (lit ''Hello.'')"
    for w by (simp add: replies_returns strip_words)
  have h: "fst (process_voice_input (capture ?e) empty_world) = Returns (lit ''Hello'')"
    by (simp add: turn_def hears_returns strip_Hello)
  have c: "chat ?e = replies (lit ''Hello.'')" "speech ?e = tts_down"
    by (simp_all add: turn_def)
  have "tts_post tts_down = Raises (Exc ''ConnectionError'')"
    by (simp add: tts_down_def speaker_ok_def)
  then have t: "fst (text_to_speech tts_down msg w) = Raises (Exc ''ConnectionError'')" for msg w
    by (rule text_to_speech_transport)
  from chat_branch [OF h Hello_other, where n = "[]"]
  have "fst (iteration long_s [] ?e True empty_world) = Raises (Exc ''ConnectionError'')"
    by (simp add: c 3 t)
  then have 4: "fst (main_loop long_s [] [?e] True empty_world) = Raises (Exc ''ConnectionError'')"
    by (rule main_loop_raised)
  from 1 2 3 4 show ?thesis by blast
qed

text \<open>
  C7, amended. \<open>query_llm\<close> has no local recovery: a transport failure of the request
  and the \<open>HTTPError\<close> that \<open>raise_for_status\<close> raises on a 4xx or 5xx status reach
  the caller, and in the loop, which catches nothing, the exception ends the session
  whatever iterations would have followed. A transport failure of \<open>text_to_speech\<close>
  reaches its caller in the same way.
\<close>

theorem query_llm_propagates:
  "(fst (query_llm n (Raises e) p m w) = Raises e)
   \<and> (400 \<le> status_code r \<and> status_code r < 600
        \<longrightarrow> fst (query_llm n (Returns r) p m w) = Raises (Exc ''HTTPError''))
   \<and> (fst (process_voice_input (capture env) w) = Returns raw \<and> raw \<noteq> []
        \<and> \<not> re_match W stop_pattern raw
        \<and> fst (query_llm n (chat env) raw 64 (snd (process_voice_input (capture env) w))) = Raises e
        \<longrightarrow> fst (main_loop W n (env # envs) True w) = Raises e)
   \<and> (tts_post tts = Raises e \<longrightarrow> fst (text_to_speech tts msg w) = Raises e)"
  using query_llm_transport [of n e p m w] query_llm_status [of r n p m w]
    chat_raised [of env w raw W n e envs] text_to_speech_transport [of tts e msg w]
  by blast

theorem query_llm_propagates_witness:
  "fst (query_llm [] chat_down (lit ''Hello'') 64 empty_world) = Raises (Exc ''ConnectionError'')
   \<and> 400 \<le> status_code server_error \<and> status_code server_error < 600
   \<and> fst (query_llm [] (Returns server_error) (lit ''Hello'') 64 empty_world) = Raises (Exc ''HTTPError'')
   \<and> fst (process_voice_input (capture ((turn (lit ''Hello'') [])\<lparr>chat := chat_down\<rparr>)) empty_world)
       = Returns (lit ''Hello'')
   \<and> fst (main_loop long_s [] [(turn (lit ''Hello'') [])\<lparr>chat := chat_down\<rparr>, turn (lit ''Hello'') []]
            True empty_world) = Raises (Exc ''ConnectionError'')
   \<and> tts_post tts_down = Raises (Exc ''ConnectionError'')
   \<and> fst (text_to_speech tts_down (lit ''Hello.'') empty_world) = Raises (Exc ''ConnectionError'')"
proof -
  let ?e = "(turn (lit ''Hello'') [])\<lparr>chat := chat_down\<rparr>"
  let ?x = "Exc ''ConnectionError''"
  note p = query_llm_propagates [where n = "[]" and e = ?x and p = "lit ''Hello''" and m = 64
      and w = empty_world and r = server_error and env = ?e and raw = "lit ''Hello''"
      and W = long_s and envs = "[turn (lit ''Hello'') []]" and tts = tts_down
      and msg = "lit ''Hello.''"]
  have s: "400 \<le> status_code server_error \<and> status_code server_error < 600"
    by (simp add: server_error_def)
  have h: "fst (process_voice_input (capture ?e) empty_world) = Returns (lit ''Hello'')"
    by (simp add: turn_def hears_returns strip_Hello)
  have c: "chat ?e = Raises ?x" by (simp add: chat_down_def)
  have t: "tts_post tts_down = Raises ?x" by (simp add: tts_down_def speaker_ok_def)
  from p have 1: "fst (query_llm [] chat_down (lit ''Hello'') 64 empty_world) = Raises ?x"
    by (simp add: chat_down_def)
  from p s have 2: "fst (query_llm [] (Returns server_error) (lit ''Hello'') 64 empty_world)
      = Raises (Exc ''HTTPError'')" by blast
  have "fst (query_llm [] (chat ?e) (lit ''Hello'') 64
      (snd (process_voice_input (capture ?e) empty_world))) = Raises ?x"
    by (simp only: c query_llm_transport)
  with p h Hello_other(1) Hello_other(2) [of long_s]
  have 3: "fst (main_loop long_s [] [?e, turn (lit ''Hello'') []] True empty_world) = Raises ?x"
    by blast
  from p t have 4: "fst (text_to_speech tts_down (lit ''Hello.'') empty_world) = Raises ?x"
    by blast
  from 1 2 3 4 s h t show ?thesis by blast
qed


text \<open>
  C8. After a 200 response \<open>text_to_speech\<close> is to delete \<open>speech.wav\<close> on every
  path. The code does not: when \<open>play\<close> raises, the exception leaves the function
  before \<open>unlink\<close> and the file stays, whereas \<open>process_voice_input\<close> removes
  \<open>prompt.wav\<close> in a \<open>finally\<close> block even when the upload fails.
\<close>

theorem speech_wav_left_behind:
  "fst (text_to_speech playback_fails (lit ''Hello.'') empty_world) = Raises (Exc ''OSError'')
   \<and> ''speech.wav'' \<in> files (snd (text_to_speech playback_fails (lit ''Hello.'') empty_world))
   \<and> ''speech.wav'' \<notin> files (snd (text_to_speech speaker_ok (lit ''Hello.'') empty_world))
   \<and> ''prompt.wav'' \<notin> files (snd (process_voice_input stt_down empty_world))"
  by (simp add: text_to_speech_def playback_fails_def speaker_ok_def empty_world_def
      process_voice_input_def stt_down_def hears_def logging_def post_def)

theorem process_voice_input_raises_counterexample:
  "fst (process_voice_input no_microphone empty_world) = Raises (Exc ''OSError'')
   \<and> fst (process_voice_input interrupted empty_world) = Raises (BaseExc ''KeyboardInterrupt'')
   \<and> fst (process_voice_input release_fails empty_world) = Raises (Exc ''OSError'')"
  by (simp add: process_voice_input_def no_microphone_def interrupted_def release_fails_def
      times_out_def hears_def leave_with_def)

lemma listen_raised:
  assumes "microphone env = Returns ()" "adjust_for_ambient_noise env = Returns ()"
    and "listen env = Raises e" "is_Exception e" "microphone_exit env = Returns ()"
  shows "process_voice_input env w =
     (Returns [], logging (STT_capture_error e) (logging Waiting_for_voice w))"
  using assms by (simp add: process_voice_input_def leave_with_def)

text \<open>
  C9, amended. Once the microphone is open and calibrated, an \<open>Exception\<close> raised by
  \<open>recognizer.listen\<close>, such as the timeout with no speech onset or a device error
  while listening, does not reach the caller when the microphone is then released
  without error on leaving the \<open>with\<close> block: \<open>process_voice_input\<close> logs it at
  level ERROR after the waiting line and returns the empty string, with no request and
  no file written.
\<close>

theorem listen_failure_contained:
  assumes "microphone env = Returns ()" "adjust_for_ambient_noise env = Returns ()"
    and "listen env = Raises e" "is_Exception e" "microphone_exit env = Returns ()"
  shows "fst (process_voice_input env w) = Returns []
    \<and> log (snd (process_voice_input env w)) = log w @ [Waiting_for_voice, STT_capture_error e]
    \<and> levelname (STT_capture_error e) = ERROR
    \<and> requests (snd (process_voice_input env w)) = requests w
    \<and> files (snd (process_voice_input env w)) = files w"
  by (simp add: listen_raised [OF assms] logging_def)

theorem listen_failure_contained_witness:
  "microphone times_out = Returns () \<and> adjust_for_ambient_noise times_out = Returns ()
   \<and> listen times_out = Raises (Exc ''WaitTimeoutError'') \<and> is_Exception (Exc ''WaitTimeoutError'')
   \<and> microphone_exit times_out = Returns ()
   \<and> fst (process_voice_input times_out empty_world) = Returns []
   \<and> log (snd (process_voice_input times_out empty_world))
       = [Waiting_for_voice, STT_capture_error (Exc ''WaitTimeoutError'')]"
proof -
  have a: "microphone times_out = Returns ()" "adjust_for_ambient_noise times_out = Returns ()"
    "listen times_out = Raises (Exc ''WaitTimeoutError'')" "is_Exception (Exc ''WaitTimeoutError'')"
    "microphone_exit times_out = Returns ()"
    by (simp_all add: times_out_def hears_def)
  from a listen_failure_contained [OF a, of empty_world] show ?thesis
    by (simp add: empty_world_def)
qed

lemma capture_outcome_any_world:
  "fst (process_voice_input env w) = fst (process_voice_input env w')"
  by (simp add: process_voice_input_def leave_with_def Let_def split_beta
      split: outcome.splits)

lemma transcript_of_heard:
  "fst (process_voice_input (capture env) w) = transcript_of env"
  unfolding transcript_of_def by (rule capture_outcome_any_world)

lemma iteration_returned:
  assumes "fst (iteration W n env l w) = Returns l'"
  shows "\<exists>raw. fst (process_voice_input (capture env) w) = Returns raw"
proof (cases "process_voice_input (capture env) w")
  case (Pair r w1)
  show ?thesis
  proof (cases r)
    case (Returns raw)
    with Pair show ?thesis by simp
  next
    case (Raises e)
    with Pair assms show ?thesis by (simp add: iteration_raised)
  qed
qed

lemma iteration_flag:
  assumes "is_word W 383"
    and "fst (process_voice_input (capture env) w) = Returns raw"
    and "fst (iteration W n env l w) = Returns l'"
  shows "l' = flag_step W l raw"
proof -
  note h = heard_world [OF assms(2)]
  have s: "re_match W stop_pattern raw \<longleftrightarrow> is_exactly W ''stop'' raw"
    by (rule stop_is_exactly [OF assms(1)])
  have t: "re_match W start_pattern raw \<longleftrightarrow> is_exactly W ''start'' raw"
    by (rule start_is_exactly [OF assms(1)])
  have e: "raw = [] \<Longrightarrow> \<not> re_match W stop_pattern raw \<and> \<not> re_match W start_pattern raw"
    using stop_nonempty [of W raw] start_nonempty [of W raw] by blast
  have "l' = (if l \<and> re_match W stop_pattern raw then False
              else if \<not> l \<and> re_match W start_pattern raw then True else l)"
    using assms(3) e
    by (auto simp: iteration_heard [OF h] split: if_splits prod.splits outcome.splits)
  then show ?thesis unfolding s t flag_step_def .
qed

lemma main_loop_step:
  assumes "fst (iteration W n env l w) = Returns l'"
  shows "main_loop W n (env # envs) l w = main_loop W n envs l' (snd (iteration W n env l w))"
  using assms by (cases "iteration W n env l w") simp

lemma main_loop_flag:
  assumes "is_word W 383"
  shows "fst (main_loop W n envs l w) = Returns l'
    \<Longrightarrow> length (heard envs) = length envs \<and> l' = foldl (flag_step W) l (heard envs)"
proof (induction envs arbitrary: l w)
  case Nil
  then show ?case by simp
next
  case (Cons env envs)
  obtain r w1 where i: "iteration W n env l w = (r, w1)" by (cases "iteration W n env l w")
  show ?case
  proof (cases r)
    case (Raises e)
    with i Cons.prems show ?thesis by simp
  next
    case (Returns l1)
    with i have r: "fst (iteration W n env l w) = Returns l1" by simp
    from iteration_returned [OF r] obtain raw where
      h: "fst (process_voice_input (capture env) w) = Returns raw" by blast
    then have t: "transcript_of env = Returns raw" by (simp add: transcript_of_heard)
    from iteration_flag [OF assms h r] have f: "l1 = flag_step W l raw" .
    from Cons.prems i Returns have "fst (main_loop W n envs l1 w1) = Returns l'" by simp
    from Cons.IH [OF this] t f show ?thesis by simp
  qed
qed


lemma playback_fails_raises:
  "fst (text_to_speech playback_fails msg w) = Raises (Exc ''OSError'')"
  by (simp add: text_to_speech_def playback_fails_def speaker_ok_def logging_def post_def)

lemma Stop_is_stop: "is_exactly long_s ''stop'' (lit ''Stop'')"
proof -
  have "is_word long_s 383" by (simp add: long_s_def is_word_def)
  from stop_is_exactly [OF this, of "lit ''Stop''"] show ?thesis by (simp add: eval_match)
qed

lemma main_anonymous:
  "main W [] envs w
     = main_loop W [] envs True (logging Now_running (logging Proceeding_anonymously w))"
  by (simp add: main_def strip_def)

lemma Hello_not_start: "\<not> re_match W start_pattern (lit ''Hello'')"
  by (simp add: eval_match)

theorem listening_flag_unplayed_counterexample:
  "fst (process_voice_input (capture ((turn (lit ''Stop'') [])\<lparr>speech := playback_fails\<rparr>))
          empty_world) = Returns (lit ''Stop'')
   \<and> is_exactly long_s ''stop'' (lit ''Stop'')
   \<and> fst (iteration long_s [] ((turn (lit ''Stop'') [])\<lparr>speech := playback_fails\<rparr>) True
             empty_world) = Raises (Exc ''OSError'')
   \<and> fst (main long_s [] [(turn (lit ''Stop'') [])\<lparr>speech := playback_fails\<rparr>] empty_world)
       \<noteq> Returns False"
proof -
  let ?e = "(turn (lit ''Stop'') [])\<lparr>speech := playback_fails\<rparr>"
  have h: "fst (process_voice_input (capture ?e) w) = Returns (lit ''Stop'')" for w
    by (simp add: turn_def hears_returns strip_Stop)
  have m: "re_match long_s stop_pattern (lit ''Stop'')" by (simp add: eval_match)
  have s: "speech ?e = playback_fails" by simp
  have i: "fst (iteration long_s [] ?e True w) = Raises (Exc ''OSError'')" for w
    using stop_branch [OF h [of w] m, where n = "[]"] by (simp add: s playback_fails_raises)
  have "fst (main long_s [] [?e] empty_world) = Raises (Exc ''OSError'')"
    unfolding main_anonymous by (rule main_loop_raised [OF i])
  with h [of empty_world] i [of empty_world] Stop_is_stop show ?thesis by simp
qed

text \<open>
  C1, amended. The flag is true when the loop is entered, and a run of \<open>main\<close> that
  completes its iterations ends with the flag that the transcripts heard give, one
  after the other, by the rule of the specification. In an iteration that hears \<open>raw\<close>
  and completes, the flag goes from true to false exactly when it was true and \<open>raw\<close>,
  without the non-word characters around it and without regard to case, is the word
  stop; it goes from false to true exactly when it was false and \<open>raw\<close> is so the word
  start; otherwise it keeps its value. An iteration in which a call raises assigns no
  flag: its exception ends the loop. The character database is taken to know U+017F as
  the letter it is.
\<close>

theorem listening_flag:
  assumes "is_word W 383"
  shows "fst (main W typed [] w) = Returns True
    \<and> (fst (main W typed envs w) = Returns l
          \<longrightarrow> length (heard envs) = length envs \<and> l = foldl (flag_step W) True (heard envs))
    \<and> (fst (process_voice_input (capture env) w1) = Returns raw
        \<and> fst (iteration W n env l0 w1) = Returns l'
          \<longrightarrow> (l0 \<and> \<not> l' \<longleftrightarrow> l0 \<and> is_exactly W ''stop'' raw)
            \<and> (\<not> l0 \<and> l' \<longleftrightarrow> \<not> l0 \<and> is_exactly W ''start'' raw)
            \<and> (\<not> (l0 \<and> is_exactly W ''stop'' raw) \<and> \<not> (\<not> l0 \<and> is_exactly W ''start'' raw)
                 \<longrightarrow> l' = l0)
            \<and> main_loop W n (env # envs1) l0 w1
                = main_loop W n envs1 l' (snd (iteration W n env l0 w1)))
    \<and> (fst (iteration W n env2 l2 w2) = Raises e
          \<longrightarrow> fst (main_loop W n (env2 # envs2) l2 w2) = Raises e)"
proof -
  have 1: "length (heard envs) = length envs \<and> l = foldl (flag_step W) True (heard envs)"
    if "fst (main W typed envs w) = Returns l"
    using that main_loop_flag [OF assms, of "strip typed" envs True _ l]
    by (simp add: main_def Let_def)
  have 2: "(l0 \<and> \<not> l' \<longleftrightarrow> l0 \<and> is_exactly W ''stop'' raw)
      \<and> (\<not> l0 \<and> l' \<longleftrightarrow> \<not> l0 \<and> is_exactly W ''start'' raw)
      \<and> (\<not> (l0 \<and> is_exactly W ''stop'' raw) \<and> \<not> (\<not> l0 \<and> is_exactly W ''start'' raw)
           \<longrightarrow> l' = l0)
      \<and> main_loop W n (env # envs1) l0 w1
          = main_loop W n envs1 l' (snd (iteration W n env l0 w1))"
    if "fst (process_voice_input (capture env) w1) = Returns raw"
      "fst (iteration W n env l0 w1) = Returns l'"
    using iteration_flag [OF assms that] main_loop_step [OF that(2), of envs1]
    by (auto simp: flag_step_def split: if_splits)
  have 3: "fst (main_loop W n (env2 # envs2) l2 w2) = Raises e"
    if "fst (iteration W n env2 l2 w2) = Raises e"
    using that by (rule main_loop_raised)
  have 0: "fst (main W typed [] w) = Returns True"
    by (simp add: main_def Let_def)
  from 0 1 2 3 show ?thesis by blast
qed

theorem listening_flag_witness:
  "is_word long_s 383
   \<and> fst (main long_s [] [turn (lit ''Stop'') [], turn (lit ''Hello'') []] empty_world)
       = Returns False
   \<and> heard [turn (lit ''Stop'') [], turn (lit ''Hello'') []] = [lit ''Stop'', lit ''Hello'']
   \<and> foldl (flag_step long_s) True [lit ''Stop'', lit ''Hello''] = False
   \<and> fst (process_voice_input (capture (turn (lit ''Stop'') [])) empty_world) = Returns (lit ''Stop'')
   \<and> fst (iteration long_s [] (turn (lit ''Stop'') []) True empty_world) = Returns False
   \<and> is_exactly long_s ''stop'' (lit ''Stop'')
   \<and> fst (iteration long_s [] ((turn (lit ''Stop'') [])\<lparr>speech := playback_fails\<rparr>) True
             empty_world) = Raises (Exc ''OSError'')
   \<and> fst (main_loop long_s [] [(turn (lit ''Stop'') [])\<lparr>speech := playback_fails\<rparr>,
             turn (lit ''Hello'') []] True empty_world) = Raises (Exc ''OSError'')"
proof -
  let ?s = "turn (lit ''Stop'') []"
  let ?h = "turn (lit ''Hello'') []"
  let ?u = "(turn (lit ''Stop'') [])\<lparr>speech := playback_fails\<rparr>"
  have a: "is_word long_s 383" by (simp add: long_s_def is_word_def)
  have hs: "fst (process_voice_input (capture ?s) w) = Returns (lit ''Stop'')" for w
    by (simp add: turn_def hears_returns strip_Stop)
  have hh: "fst (process_voice_input (capture ?h) w) = Returns (lit ''Hello'')" for w
    by (simp add: turn_def hears_returns strip_Hello)
  have hu: "fst (process_voice_input (capture ?u) w) = Returns (lit ''Stop'')" for w
    by (simp add: turn_def hears_returns strip_Stop)
  have m: "re_match long_s stop_pattern (lit ''Stop'')" by (simp add: eval_match)
  have sp: "speech ?s = speaker_ok" "speech ?u = playback_fails" by (simp_all add: turn_def)
  have i1: "fst (iteration long_s [] ?s True w) = Returns False" for w
    using stop_branch [OF hs [of w] m, where n = "[]"] by (simp add: sp speaker_ok_returns)
  have i2: "fst (iteration long_s [] ?h False w) = Returns False" for w
    by (simp add: paused_step [OF hh Hello_not_start])
  have iu: "fst (iteration long_s [] ?u True w) = Raises (Exc ''OSError'')" for w
    using stop_branch [OF hu [of w] m, where n = "[]"] by (simp add: sp playback_fails_raises)
  have r: "fst (main long_s [] [?s, ?h] empty_world) = Returns False"
  proof -
    let ?w0 = "logging Now_running (logging Proceeding_anonymously empty_world)"
    let ?w1 = "snd (iteration long_s [] ?s True ?w0)"
    let ?w2 = "snd (iteration long_s [] ?h False ?w1)"
    have "main long_s [] [?s, ?h] empty_world = main_loop long_s [] [?s, ?h] True ?w0"
      by (rule main_anonymous)
    also have "\<dots> = main_loop long_s [] [?h] False ?w1"
      by (rule main_loop_step [OF i1])
    also have "\<dots> = main_loop long_s [] [] False ?w2"
      by (rule main_loop_step [OF i2])
    finally show ?thesis by simp
  qed
  note p = listening_flag [OF a, where typed = "[]" and envs = "[?s, ?h]" and w = empty_world
      and l = False and env = ?s and ?w1.0 = empty_world and raw = "lit ''Stop''" and n = "[]"
      and ?l0.0 = True and l' = False and ?env2.0 = ?u and ?l2.0 = True and ?w2.0 = empty_world
      and e = "Exc ''OSError''" and ?envs2.0 = "[?h]"]
  from p r have 1: "length (heard [?s, ?h]) = length [?s, ?h]
      \<and> False = foldl (flag_step long_s) True (heard [?s, ?h])" by blast
  have 2: "heard [?s, ?h] = [lit ''Stop'', lit ''Hello'']"
    using hs [of "\<lparr>files = {}, log = [], requests = []\<rparr>"]
      hh [of "\<lparr>files = {}, log = [], requests = []\<rparr>"]
    by (simp add: transcript_of_def)
  from p hs [of empty_world] i1 [of empty_world] have 3: "is_exactly long_s ''stop'' (lit ''Stop'')"
    by blast
  from p iu [of empty_world]
  have 4: "fst (main_loop long_s [] [?u, ?h] True empty_world) = Raises (Exc ''OSError'')"
    by blast
  from a r 1 2 3 4 hs [of empty_world] i1 [of empty_world] iu [of empty_world]
  show ?thesis by simp
qed

end
